theory Spec2Isabelle
  imports Main "HOL-Library.Sublist" "HOL-Library.Multiset"
begin

section \<open>Data model\<close>

text \<open>
  The interface \<^verbatim>\<open>ClassSchedule\<close> of \<^verbatim>\<open>types.d.ts\<close>. Every field is a JavaScript
  string; the quoted property names \<^verbatim>\<open>"Class Type"\<close>, \<^verbatim>\<open>"Module Code"\<close> and
  \<^verbatim>\<open>"Module Title"\<close> lose their blank. Strings are modelled as \<^typ>\<open>string\<close>, one
  \<^typ>\<open>char\<close> for one code unit.
\<close>

record ClassSchedule =
  Day :: string
  Time :: string
  ClassType :: string
  ModuleCode :: string
  ModuleTitle :: string
  Lecturer :: string
  Group :: string
  Room :: string

definition GROUPS :: "string list" where
  "GROUPS = [''L4CG1'', ''L4CG2'', ''L4CG3'', ''L4CG4'']"

definition DAYS :: "string list" where
  "DAYS = [''SUN'', ''MON'', ''TUE'', ''WED'', ''THU'', ''FRI'']"

text \<open>The local array \<^verbatim>\<open>dayMap\<close> of the initialiser of \<^verbatim>\<open>selectedDay\<close>: all seven
  values of the type \<^verbatim>\<open>DayOfWeek\<close>, indexed by \<^verbatim>\<open>Date.getDay()\<close>.\<close>

definition dayMap :: "string list" where
  "dayMap = [''SUN'', ''MON'', ''TUE'', ''WED'', ''THU'', ''FRI'', ''SAT'']"

definition GROUP_STORAGE_KEY :: string where
  "GROUP_STORAGE_KEY = ''selected_group''"

definition THEME_STORAGE_KEY :: string where
  "THEME_STORAGE_KEY = ''app_theme''"

section \<open>String primitives\<close>

text \<open>
  \<^verbatim>\<open>s.includes(t)\<close>: some position of \<^verbatim>\<open>s\<close> starts an occurrence of \<^verbatim>\<open>t\<close>. The
  positions are tried from the left; the empty string occurs everywhere, also in the
  empty string.
\<close>

fun str_includes :: "string \<Rightarrow> string \<Rightarrow> bool" where
  "str_includes [] t = (t = [])"
| "str_includes (c # cs) t = (prefix t (c # cs) \<or> str_includes cs t)"

text \<open>
  \<^verbatim>\<open>t.split(' - ')[0]\<close>: the part of \<^verbatim>\<open>t\<close> before the first occurrence of the
  separator, all of \<^verbatim>\<open>t\<close> when the separator does not occur. The array that
  \<^verbatim>\<open>split\<close> returns always has an element 0.
\<close>

fun startTime :: "string \<Rightarrow> string" where
  "startTime [] = []"
| "startTime (c # cs) = (if prefix '' - '' (c # cs) then [] else c # startTime cs)"

section \<open>The derivation: \<^verbatim>\<open>filteredSchedule\<close>\<close>

text \<open>
  The bundled \<^verbatim>\<open>class_schedule.json\<close> is the parameter \<open>classScheduleData\<close>.
  \<^verbatim>\<open>selectedGroup\<close> is \<^verbatim>\<open>string | null\<close>; \<^verbatim>\<open>!selectedGroup\<close> holds of \<^verbatim>\<open>null\<close> and
  of the empty string.
\<close>

definition filteredSchedule ::
  "ClassSchedule list \<Rightarrow> string option \<Rightarrow> string \<Rightarrow> ClassSchedule list" where
  "filteredSchedule classScheduleData selectedGroup selectedDay =
     (case selectedGroup of
        None \<Rightarrow> []
      | Some g \<Rightarrow>
          if g = [] then []
          else
            let filtered = filter (\<lambda>item. str_includes (Group item) g) classScheduleData
            in if selectedDay \<noteq> ''ALL''
               then filter (\<lambda>item. Day item = selectedDay) filtered
               else filtered)"

section \<open>The derivation: \<^verbatim>\<open>groupedByDay\<close>\<close>

text \<open>
  \<^verbatim>\<open>grouped\<close> is a plain object used as a dictionary from day strings to arrays. Its
  own properties are kept as an association list in the order of their creation.
  A read \<^verbatim>\<open>grouped[k]\<close> of a key that is no own property falls through to
  \<^verbatim>\<open>Object.prototype\<close>: for the names below it yields a function or an object (truthy,
  and without a method \<^verbatim>\<open>push\<close>), for every other name \<^verbatim>\<open>undefined\<close>.
\<close>

datatype js_error = TypeError

datatype js_value = Undefined | OwnArray "ClassSchedule list" | Inherited

type_synonym grouped = "(string \<times> ClassSchedule list) list"

definition objectPrototypeProps :: "string list" where
  "objectPrototypeProps =
     [''constructor'', ''hasOwnProperty'', ''isPrototypeOf'', ''propertyIsEnumerable'',
      ''toLocaleString'', ''toString'', ''valueOf'', ''__proto__'',
      ''__defineGetter__'', ''__defineSetter__'', ''__lookupGetter__'', ''__lookupSetter__'']"

definition getProp :: "grouped \<Rightarrow> string \<Rightarrow> js_value" where
  "getProp obj k =
     (case map_of obj k of
        Some xs \<Rightarrow> OwnArray xs
      | None \<Rightarrow> if k \<in> set objectPrototypeProps then Inherited else Undefined)"

text \<open>\<^verbatim>\<open>obj[k] = v\<close>: an own property keeps its place, a new one goes last.\<close>

fun setProp :: "grouped \<Rightarrow> string \<Rightarrow> ClassSchedule list \<Rightarrow> grouped" where
  "setProp [] k v = [(k, v)]"
| "setProp ((k', v') # obj) k v =
     (if k' = k then (k, v) # obj else (k', v') # setProp obj k v)"

text \<open>
  The body of the first \<^verbatim>\<open>forEach\<close>: create the bucket when the read is falsy, then
  \<^verbatim>\<open>push\<close>. An array is truthy even when empty. Calling \<^verbatim>\<open>push\<close> on anything but an
  array throws a \<^verbatim>\<open>TypeError\<close>.
\<close>

definition groupItem :: "grouped \<Rightarrow> ClassSchedule \<Rightarrow> js_error + grouped" where
  "groupItem grouped item =
     (let grouped1 = (if getProp grouped (Day item) = Undefined
                      then setProp grouped (Day item) []
                      else grouped)
      in case getProp grouped1 (Day item) of
           OwnArray xs \<Rightarrow> Inr (setProp grouped1 (Day item) (xs @ [item]))
         | Undefined \<Rightarrow> Inl TypeError
         | Inherited \<Rightarrow> Inl TypeError)"

fun groupAll :: "grouped \<Rightarrow> ClassSchedule list \<Rightarrow> js_error + grouped" where
  "groupAll grouped [] = Inr grouped"
| "groupAll grouped (item # items) =
     (case groupItem grouped item of
        Inl e \<Rightarrow> Inl e
      | Inr grouped' \<Rightarrow> groupAll grouped' items)"

text \<open>
  The comparator handed to \<^verbatim>\<open>sort\<close>. \<^verbatim>\<open>String.prototype.localeCompare\<close> is the host's
  collation, so it is the parameter \<open>localeCompare\<close>; only the sign of its result is
  used.
\<close>

definition compareFn ::
  "(string \<Rightarrow> string \<Rightarrow> int) \<Rightarrow> ClassSchedule \<Rightarrow> ClassSchedule \<Rightarrow> int" where
  "compareFn localeCompare a b =
     (let timeA = startTime (Time a); timeB = startTime (Time b)
      in localeCompare timeA timeB)"

text \<open>
  \<^verbatim>\<open>Array.prototype.sort\<close> is a stable sort by the comparator: an element stays before a
  later one unless the comparator puts it strictly after. It is modelled by insertion
  from the right, which moves an element only past elements it compares greater to.
\<close>

fun insertSorted ::
  "(ClassSchedule \<Rightarrow> ClassSchedule \<Rightarrow> int) \<Rightarrow> ClassSchedule \<Rightarrow> ClassSchedule list
    \<Rightarrow> ClassSchedule list" where
  "insertSorted cf a [] = [a]"
| "insertSorted cf a (b # bs) =
     (if cf a b \<le> 0 then a # b # bs else b # insertSorted cf a bs)"

fun arraySort ::
  "(ClassSchedule \<Rightarrow> ClassSchedule \<Rightarrow> int) \<Rightarrow> ClassSchedule list \<Rightarrow> ClassSchedule list" where
  "arraySort cf [] = []"
| "arraySort cf (a # as) = insertSorted cf a (arraySort cf as)"

text \<open>
  The second \<^verbatim>\<open>forEach\<close> sorts every bucket in place; the buckets are independent, so
  the order in which \<^verbatim>\<open>Object.keys\<close> lists them does not show in the result.
\<close>

definition groupedByDay ::
  "(string \<Rightarrow> string \<Rightarrow> int) \<Rightarrow> ClassSchedule list \<Rightarrow> js_error + grouped" where
  "groupedByDay localeCompare filtered =
     (case groupAll [] filtered of
        Inl e \<Rightarrow> Inl e
      | Inr grouped \<Rightarrow>
          Inr (map (\<lambda>(day, xs). (day, arraySort (compareFn localeCompare) xs)) grouped))"

section \<open>The schedule view\<close>

text \<open>
  The body of the \<^verbatim>\<open>ScrollView\<close> of \<^verbatim>\<open>renderSchedule\<close>. With \<^verbatim>\<open>selectedDay === 'ALL'\<close>
  it maps over \<^verbatim>\<open>DAYS\<close>; a day whose bucket is missing or empty yields \<^verbatim>\<open>null\<close>, any
  other day a section with the key \<^verbatim>\<open>day\<close> and the day's classes. Otherwise there is one
  section, which lists the bucket of \<^verbatim>\<open>selectedDay\<close> or shows the text
  \<^verbatim>\<open>No classes scheduled for this day\<close> (here \<open>None\<close>). The keys read here are values
  of \<^verbatim>\<open>DayOfWeek\<close>, none of which is a name of \<^verbatim>\<open>Object.prototype\<close>, so a read is an
  own bucket or \<^verbatim>\<open>undefined\<close>. \<open>byDay\<close> is the value of \<^verbatim>\<open>groupedByDay\<close>.
\<close>

datatype schedule_body =
    AllDays "(string \<times> ClassSchedule list) option list"
  | OneDay string "ClassSchedule list option"

definition renderSchedule :: "string \<Rightarrow> grouped \<Rightarrow> schedule_body" where
  "renderSchedule selectedDay byDay =
     (if selectedDay = ''ALL''
      then AllDays
             (map (\<lambda>day. case map_of byDay day of
                            None \<Rightarrow> None
                          | Some dayClasses \<Rightarrow>
                              if length dayClasses = 0 then None else Some (day, dayClasses))
                  DAYS)
      else OneDay selectedDay
             (case map_of byDay selectedDay of
                None \<Rightarrow> None
              | Some dayClasses \<Rightarrow>
                  if length dayClasses > 0 then Some dayClasses else None))"

section \<open>The preference store\<close>

text \<open>
  \<^verbatim>\<open>expo-secure-store\<close> is the platform's key-value store. A call settles as
  fulfilled or rejected, which the model takes as the parameter of the call; a rejected
  call leaves the store as it was.
\<close>

type_synonym secure_store = "string \<rightharpoonup> string"

datatype outcome = Fulfilled | Rejected

datatype store_error = StoreError

definition getItemAsync :: "outcome \<Rightarrow> secure_store \<Rightarrow> string \<Rightarrow> store_error + string option" where
  "getItemAsync r st key = (case r of Rejected \<Rightarrow> Inl StoreError | Fulfilled \<Rightarrow> Inr (st key))"

definition setItemAsync ::
  "outcome \<Rightarrow> secure_store \<Rightarrow> string \<Rightarrow> string \<Rightarrow> store_error + secure_store" where
  "setItemAsync r st key v =
     (case r of Rejected \<Rightarrow> Inl StoreError | Fulfilled \<Rightarrow> Inr (st(key \<mapsto> v)))"

definition deleteItemAsync :: "outcome \<Rightarrow> secure_store \<Rightarrow> string \<Rightarrow> store_error + secure_store" where
  "deleteItemAsync r st key =
     (case r of Rejected \<Rightarrow> Inl StoreError | Fulfilled \<Rightarrow> Inr (st(key := None)))"

section \<open>The state of \<^verbatim>\<open>App\<close> and its handlers\<close>

text \<open>
  The four \<^verbatim>\<open>useState\<close> cells of \<^verbatim>\<open>App\<close>, together with the store they are saved to
  and the alerts shown so far (title and message).
\<close>

record world =
  selectedGroup :: "string option"
  selectedDay :: string
  isLoading :: bool
  isDarkMode :: bool
  secureStore :: secure_store
  alerts :: "(string \<times> string) list"

text \<open>
  The initialiser of \<^verbatim>\<open>selectedDay\<close>. \<open>dayIndex\<close> is the result of \<^verbatim>\<open>getDay()\<close>; an
  index outside \<^verbatim>\<open>dayMap\<close> reads \<^verbatim>\<open>undefined\<close>, which \<^verbatim>\<open>DAYS\<close> does not include.
\<close>

definition initialSelectedDay :: "nat \<Rightarrow> string" where
  "initialSelectedDay dayIndex =
     (if dayIndex < length dayMap
      then (let currentDay = dayMap ! dayIndex
            in if currentDay \<in> set DAYS then currentDay else ''ALL'')
      else ''ALL'')"

definition initialWorld :: "nat \<Rightarrow> secure_store \<Rightarrow> world" where
  "initialWorld dayIndex st =
     \<lparr>selectedGroup = None, selectedDay = initialSelectedDay dayIndex,
      isLoading = True, isDarkMode = False, secureStore = st, alerts = []\<rparr>"

text \<open>
  \<^verbatim>\<open>loadSavedData\<close>: \<^verbatim>\<open>Promise.all\<close> rejects as soon as one read rejects, and the
  \<^verbatim>\<open>catch\<close> block only logs. \<^verbatim>\<open>savedGroup && \<dots>\<close> is falsy for \<^verbatim>\<open>null\<close> and for the
  empty string. The \<^verbatim>\<open>finally\<close> block runs on both paths.
\<close>

definition loadSavedData :: "outcome \<Rightarrow> outcome \<Rightarrow> world \<Rightarrow> world" where
  "loadSavedData rGroup rTheme w =
     (let w' =
        (case (getItemAsync rGroup (secureStore w) GROUP_STORAGE_KEY,
               getItemAsync rTheme (secureStore w) THEME_STORAGE_KEY) of
           (Inr savedGroup, Inr savedTheme) \<Rightarrow>
             (let w1 = (case savedGroup of
                          None \<Rightarrow> w
                        | Some g \<Rightarrow>
                            if g \<noteq> [] \<and> g \<in> set GROUPS
                            then w\<lparr>selectedGroup := Some g\<rparr> else w);
                  w2 = (if savedTheme = Some ''dark'' then w1\<lparr>isDarkMode := True\<rparr> else w1)
              in w2)
         | (_, _) \<Rightarrow> w)
      in w'\<lparr>isLoading := False\<rparr>)"

definition saveGroup :: "outcome \<Rightarrow> string \<Rightarrow> world \<Rightarrow> world" where
  "saveGroup r grp w =
     (case setItemAsync r (secureStore w) GROUP_STORAGE_KEY grp of
        Inr st' \<Rightarrow> w\<lparr>secureStore := st', selectedGroup := Some grp\<rparr>
      | Inl e \<Rightarrow> w\<lparr>alerts := alerts w @ [(''Error'', ''Failed to save group selection'')]\<rparr>)"

text \<open>
  \<^verbatim>\<open>toggleTheme\<close> sets the new theme before it awaits the write, and the \<^verbatim>\<open>catch\<close>
  block only logs. A handler reads the state that the handler before it left: the
  component renders again between two presses.
\<close>

definition toggleTheme :: "outcome \<Rightarrow> world \<Rightarrow> world" where
  "toggleTheme r w =
     (let newTheme = \<not> isDarkMode w;
          w1 = w\<lparr>isDarkMode := newTheme\<rparr>
      in case setItemAsync r (secureStore w1) THEME_STORAGE_KEY
                (if newTheme then ''dark'' else ''light'') of
           Inr st' \<Rightarrow> w1\<lparr>secureStore := st'\<rparr>
         | Inl e \<Rightarrow> w1)"

text \<open>
  \<^verbatim>\<open>changeGroup\<close> shows an alert with the buttons \<^verbatim>\<open>Cancel\<close> and \<^verbatim>\<open>Yes\<close>; only \<^verbatim>\<open>Yes\<close>
  has a handler.
\<close>

datatype alert_button = Cancel | Yes

definition changeGroup :: "alert_button \<Rightarrow> outcome \<Rightarrow> world \<Rightarrow> world" where
  "changeGroup button r w =
     (let w1 = w\<lparr>alerts := alerts w @
                  [(''Change Group'', ''Are you sure you want to change your group?'')]\<rparr>
      in case button of
           Cancel \<Rightarrow> w1
         | Yes \<Rightarrow>
             (case deleteItemAsync r (secureStore w1) GROUP_STORAGE_KEY of
                Inr st' \<Rightarrow> w1\<lparr>secureStore := st', selectedGroup := None\<rparr>
              | Inl e \<Rightarrow> w1))"

definition setSelectedDay :: "string \<Rightarrow> world \<Rightarrow> world" where
  "setSelectedDay day w = w\<lparr>selectedDay := day\<rparr>"

text \<open>
  The states of a run: the component mounts with a weekday index and a store, and then
  any handler runs that the screens wire up, with the arguments the screens pass: the
  effect \<^verbatim>\<open>loadSavedData\<close>, one button per element of \<^verbatim>\<open>GROUPS\<close>, the button
  \<^verbatim>\<open>ALL\<close> and one button per element of \<^verbatim>\<open>DAYS\<close>, the theme button and the change
  button.
\<close>

inductive reachable :: "world \<Rightarrow> bool" where
  mount: "reachable (initialWorld dayIndex st)"
| load: "reachable w \<Longrightarrow> reachable (loadSavedData rGroup rTheme w)"
| pressGroup: "reachable w \<Longrightarrow> grp \<in> set GROUPS \<Longrightarrow> reachable (saveGroup r grp w)"
| pressAll: "reachable w \<Longrightarrow> reachable (setSelectedDay ''ALL'' w)"
| pressDay: "reachable w \<Longrightarrow> day \<in> set DAYS \<Longrightarrow> reachable (setSelectedDay day w)"
| pressTheme: "reachable w \<Longrightarrow> reachable (toggleTheme r w)"
| pressChange: "reachable w \<Longrightarrow> reachable (changeGroup button r w)"

section \<open>Sample data\<close>

text \<open>A combined lecture for two groups, and four more sessions.\<close>

definition sessMon10 :: ClassSchedule where
  "sessMon10 = \<lparr>Day = ''MON'', Time = ''10:00 - 11:00'', ClassType = ''Lecture'',
                ModuleCode = ''M1'', ModuleTitle = ''T1'', Lecturer = ''A'',
                Group = ''L4CG1,L4CG2'', Room = ''R1''\<rparr>"

definition sessMon09 :: ClassSchedule where
  "sessMon09 = \<lparr>Day = ''MON'', Time = ''09:00 - 10:00'', ClassType = ''Tutorial'',
                ModuleCode = ''M2'', ModuleTitle = ''T2'', Lecturer = ''B'',
                Group = ''L4CG1'', Room = ''R2''\<rparr>"

definition sessMon10b :: ClassSchedule where
  "sessMon10b = \<lparr>Day = ''MON'', Time = ''10:00 - 12:00'', ClassType = ''Workshop'',
                 ModuleCode = ''M3'', ModuleTitle = ''T3'', Lecturer = ''C'',
                 Group = ''L4CG1'', Room = ''R3''\<rparr>"

definition sessSat :: ClassSchedule where
  "sessSat = \<lparr>Day = ''SAT'', Time = ''08:00 - 09:00'', ClassType = ''Lecture'',
              ModuleCode = ''M4'', ModuleTitle = ''T4'', Lecturer = ''D'',
              Group = ''L4CG1,L4CG3'', Room = ''R4''\<rparr>"

definition sessTue :: ClassSchedule where
  "sessTue = \<lparr>Day = ''TUE'', Time = ''11:00 - 12:00'', ClassType = ''Lecture'',
              ModuleCode = ''M5'', ModuleTitle = ''T5'', Lecturer = ''E'',
              Group = ''L4CG4'', Room = ''R5''\<rparr>"

definition sampleData :: "ClassSchedule list" where
  "sampleData = [sessMon10, sessSat, sessTue, sessMon09, sessMon10b]"

text \<open>A collation for the samples: code units compared from the left.\<close>

fun codeUnitCompare :: "string \<Rightarrow> string \<Rightarrow> int" where
  "codeUnitCompare [] [] = 0"
| "codeUnitCompare [] (y # ys) = - 1"
| "codeUnitCompare (x # xs) [] = 1"
| "codeUnitCompare (x # xs) (y # ys) =
     (if (of_char x :: nat) < of_char y then - 1
      else if (of_char y :: nat) < of_char x then 1
      else codeUnitCompare xs ys)"

definition sampleStore :: secure_store where
  "sampleStore = [GROUP_STORAGE_KEY \<mapsto> ''L4CG2'', THEME_STORAGE_KEY \<mapsto> ''dark'']"

definition sampleWorld :: world where
  "sampleWorld = \<lparr>selectedGroup = Some ''L4CG1'', selectedDay = ''MON'', isLoading = False,
                  isDarkMode = False, secureStore = [GROUP_STORAGE_KEY \<mapsto> ''L4CG1''],
                  alerts = []\<rparr>"

section \<open>Filtering by group\<close>

lemma str_includes_iff: "str_includes s t \<longleftrightarrow> (\<exists>p q. s = p @ t @ q)"
proof (induction s)
  case Nil
  then show ?case by auto
next
  case (Cons c cs)
  have "(\<exists>p q. c # cs = p @ t @ q) \<longleftrightarrow> sublist t (c # cs)"
    by (auto simp: sublist_def)
  also have "\<dots> \<longleftrightarrow> prefix t (c # cs) \<or> sublist t cs"
    by (rule sublist_Cons_right)
  also have "sublist t cs \<longleftrightarrow> (\<exists>p q. cs = p @ t @ q)"
    by (auto simp: sublist_def)
  finally show ?case using Cons.IH by simp
qed

lemma GROUPS_nonempty: "g \<in> set GROUPS \<Longrightarrow> g \<noteq> []"
  by (auto simp: GROUPS_def)

text \<open>
  C1. For a valid group identifier \<open>g\<close> and any dataset, the group filter (the
  schedule derived with the day selection \<^verbatim>\<open>ALL\<close>) is the dataset restricted to the
  sessions whose \<^verbatim>\<open>Group\<close> field contains \<open>g\<close> as a contiguous substring: exactly
  those sessions, in the dataset's order. A specific day restricts that sequence
  further to the sessions of the day.
\<close>

theorem filterByGroup_exact:
  "g \<in> set GROUPS \<Longrightarrow>
     filteredSchedule D (Some g) ''ALL'' = filter (\<lambda>s. \<exists>p q. Group s = p @ g @ q) D \<and>
     (\<forall>d. d \<noteq> ''ALL'' \<longrightarrow>
        filteredSchedule D (Some g) d =
          filter (\<lambda>s. Day s = d) (filter (\<lambda>s. \<exists>p q. Group s = p @ g @ q) D))"
  using GROUPS_nonempty [of g]
  by (simp add: filteredSchedule_def str_includes_iff)

lemma sample_L4CG1:
  "filteredSchedule sampleData (Some ''L4CG1'') ''ALL'' = [sessMon10, sessSat, sessMon09, sessMon10b]"
  by code_simp

theorem filterByGroup_exact_witness:
  "''L4CG1'' \<in> set GROUPS \<and>
   filter (\<lambda>s. \<exists>p q. Group s = p @ ''L4CG1'' @ q) sampleData =
     [sessMon10, sessSat, sessMon09, sessMon10b]"
proof -
  have h: "''L4CG1'' \<in> set GROUPS" by (simp add: GROUPS_def)
  from filterByGroup_exact [OF h, of sampleData]
  have "filteredSchedule sampleData (Some ''L4CG1'') ''ALL'' =
          filter (\<lambda>s. \<exists>p q. Group s = p @ ''L4CG1'' @ q) sampleData"
    by (rule conjunct1)
  with h sample_L4CG1 show ?thesis by simp
qed

section \<open>Grouping by day\<close>

lemma map_of_setProp: "map_of (setProp obj k v) = (map_of obj)(k \<mapsto> v)"
  by (induction obj k v rule: setProp.induct) auto

lemma keys_setProp:
  "map fst (setProp obj k v) = (if k \<in> fst ` set obj then map fst obj else map fst obj @ [k])"
  by (induction obj k v rule: setProp.induct) auto

lemma distinct_setProp: "distinct (map fst obj) \<Longrightarrow> distinct (map fst (setProp obj k v))"
  by (simp add: keys_setProp)

lemma mset_setProp_new:
  "map_of obj k = None \<Longrightarrow>
     mset (concat (map snd (setProp obj k v))) = mset (concat (map snd obj)) + mset v"
  by (induction obj k v rule: setProp.induct) (auto split: if_splits)

lemma mset_setProp_push:
  "map_of obj k = Some xs \<Longrightarrow>
     mset (concat (map snd (setProp obj k (xs @ ys)))) = mset (concat (map snd obj)) + mset ys"
  by (induction obj k "xs @ ys" rule: setProp.induct) (auto split: if_splits)

lemma groupItem_result:
  assumes "Day item \<notin> set objectPrototypeProps"
  shows "groupItem obj item =
           Inr (case map_of obj (Day item) of
                  Some xs \<Rightarrow> setProp obj (Day item) (xs @ [item])
                | None \<Rightarrow> setProp (setProp obj (Day item) []) (Day item) [item])"
  using assms by (simp add: groupItem_def getProp_def map_of_setProp split: option.splits)

lemma groupItem_props:
  assumes "Day item \<notin> set objectPrototypeProps"
  shows "\<exists>obj'. groupItem obj item = Inr obj' \<and>
           map_of obj' = (map_of obj)(Day item \<mapsto>
              (case map_of obj (Day item) of Some xs \<Rightarrow> xs | None \<Rightarrow> []) @ [item]) \<and>
           (distinct (map fst obj) \<longrightarrow> distinct (map fst obj')) \<and>
           mset (concat (map snd obj')) = mset (concat (map snd obj)) + {#item#}"
proof (cases "map_of obj (Day item)")
  case None
  then show ?thesis
    using groupItem_result [OF assms, of obj]
    by (simp add: map_of_setProp distinct_setProp
          mset_setProp_push [of _ _ "[]", simplified] mset_setProp_new)
next
  case (Some xs)
  then show ?thesis
    using groupItem_result [OF assms, of obj]
    by (simp add: map_of_setProp distinct_setProp mset_setProp_push)
qed

lemma groupAll_props:
  assumes "\<forall>s\<in>set items. Day s \<notin> set objectPrototypeProps"
  shows "\<exists>obj'. groupAll obj items = Inr obj' \<and>
           (\<forall>k. map_of obj' k =
              (if k \<in> Day ` set items
               then Some ((case map_of obj k of Some xs \<Rightarrow> xs | None \<Rightarrow> []) @
                          filter (\<lambda>s. Day s = k) items)
               else map_of obj k)) \<and>
           (distinct (map fst obj) \<longrightarrow> distinct (map fst obj')) \<and>
           mset (concat (map snd obj')) = mset (concat (map snd obj)) + mset items"
  using assms
proof (induction items arbitrary: obj)
  case Nil
  then show ?case by simp
next
  case (Cons item items)
  from Cons.prems have d: "Day item \<notin> set objectPrototypeProps"
    and ds: "\<forall>s\<in>set items. Day s \<notin> set objectPrototypeProps" by simp_all
  from groupItem_props [OF d, of obj] obtain obj1 where
    s1: "groupItem obj item = Inr obj1"
    and m1: "map_of obj1 = (map_of obj)(Day item \<mapsto>
              (case map_of obj (Day item) of Some xs \<Rightarrow> xs | None \<Rightarrow> []) @ [item])"
    and d1: "distinct (map fst obj) \<longrightarrow> distinct (map fst obj1)"
    and c1: "mset (concat (map snd obj1)) = mset (concat (map snd obj)) + {#item#}"
    by blast
  from Cons.IH [OF ds, of obj1] obtain obj2 where
    s2: "groupAll obj1 items = Inr obj2"
    and m2: "\<forall>k. map_of obj2 k =
              (if k \<in> Day ` set items
               then Some ((case map_of obj1 k of Some xs \<Rightarrow> xs | None \<Rightarrow> []) @
                          filter (\<lambda>s. Day s = k) items)
               else map_of obj1 k)"
    and d2: "distinct (map fst obj1) \<longrightarrow> distinct (map fst obj2)"
    and c2: "mset (concat (map snd obj2)) = mset (concat (map snd obj1)) + mset items"
    by blast
  have "groupAll obj (item # items) = Inr obj2" using s1 s2 by simp
  moreover have "\<forall>k. map_of obj2 k =
              (if k \<in> Day ` set (item # items)
               then Some ((case map_of obj k of Some xs \<Rightarrow> xs | None \<Rightarrow> []) @
                          filter (\<lambda>s. Day s = k) (item # items))
               else map_of obj k)"
  proof
    fix k
    have e: "k \<notin> Day ` set items \<Longrightarrow> filter (\<lambda>s. Day s = k) items = []"
      by (auto simp: filter_empty_conv)
    show "map_of obj2 k =
              (if k \<in> Day ` set (item # items)
               then Some ((case map_of obj k of Some xs \<Rightarrow> xs | None \<Rightarrow> []) @
                          filter (\<lambda>s. Day s = k) (item # items))
               else map_of obj k)"
    proof (cases "k = Day item")
      case True
      then show ?thesis using m2 [rule_format, of k] m1 e
        by (cases "k \<in> Day ` set items") (simp_all split: option.splits)
    next
      case False
      then show ?thesis using m2 [rule_format, of k] m1
        by (cases "k \<in> Day ` set items") (simp_all split: option.splits)
    qed
  qed
  moreover have "distinct (map fst obj) \<longrightarrow> distinct (map fst obj2)" using d1 d2 by blast
  moreover have "mset (concat (map snd obj2)) = mset (concat (map snd obj)) + mset (item # items)"
    using c1 c2 by simp
  ultimately show ?case by blast
qed

section \<open>Sorting a bucket\<close>

lemma mset_insertSorted: "mset (insertSorted cf a bs) = add_mset a (mset bs)"
  by (induction bs) simp_all

lemma mset_arraySort: "mset (arraySort cf xs) = mset xs"
  by (induction xs) (simp_all add: mset_insertSorted)

lemma set_insertSorted: "set (insertSorted cf a bs) = insert a (set bs)"
  by (induction bs) auto

lemma set_arraySort: "set (arraySort cf xs) = set xs"
  by (induction xs) (simp_all add: set_insertSorted)


lemma sorted_insertSorted:
  fixes cf :: "ClassSchedule \<Rightarrow> ClassSchedule \<Rightarrow> int"
  assumes total: "\<And>x y. cf x y \<le> 0 \<or> cf y x \<le> 0"
      and trans: "\<And>x y z. cf x y \<le> 0 \<Longrightarrow> cf y z \<le> 0 \<Longrightarrow> cf x z \<le> 0"
      and srt: "sorted_wrt (\<lambda>x y. cf x y \<le> 0) bs"
  shows "sorted_wrt (\<lambda>x y. cf x y \<le> 0) (insertSorted cf a bs)"
  using srt
proof (induction bs)
  case Nil
  show ?case by simp
next
  case (Cons b bs)
  from Cons.prems have hb: "\<forall>y\<in>set bs. cf b y \<le> 0"
    and hs: "sorted_wrt (\<lambda>x y. cf x y \<le> 0) bs" by simp_all
  show ?case
  proof (cases "cf a b \<le> 0")
    case True
    have "\<forall>y\<in>set bs. cf a y \<le> 0"
    proof
      fix y assume "y \<in> set bs"
      with hb have "cf b y \<le> 0" by blast
      with True show "cf a y \<le> 0" by (rule trans)
    qed
    with True Cons.prems show ?thesis by simp
  next
    case False
    with total [of a b] have ba: "cf b a \<le> 0" by blast
    have "sorted_wrt (\<lambda>x y. cf x y \<le> 0) (insertSorted cf a bs)"
      using hs by (rule Cons.IH)
    moreover have "\<forall>y\<in>set (insertSorted cf a bs). cf b y \<le> 0"
      using ba hb by (simp add: set_insertSorted)
    ultimately show ?thesis using False by simp
  qed
qed

lemma sorted_arraySort:
  fixes cf :: "ClassSchedule \<Rightarrow> ClassSchedule \<Rightarrow> int"
  assumes total: "\<And>x y. cf x y \<le> 0 \<or> cf y x \<le> 0"
      and trans: "\<And>x y z. cf x y \<le> 0 \<Longrightarrow> cf y z \<le> 0 \<Longrightarrow> cf x z \<le> 0"
  shows "sorted_wrt (\<lambda>x y. cf x y \<le> 0) (arraySort cf xs)"
proof (induction xs)
  case Nil
  show ?case by simp
next
  case (Cons a xs)
  from sorted_insertSorted [of cf "arraySort cf xs" a, OF total trans Cons.IH]
  show ?case by simp
qed

lemma filter_insertSorted:
  assumes "\<And>b. P a \<Longrightarrow> P b \<Longrightarrow> cf a b \<le> 0"
  shows "filter P (insertSorted cf a bs) = (if P a then a # filter P bs else filter P bs)"
proof (induction bs)
  case Nil
  show ?case by simp
next
  case (Cons b bs)
  show ?case
  proof (cases "cf a b \<le> 0")
    case True
    then show ?thesis by simp
  next
    case False
    with assms [of b] have "\<not> (P a \<and> P b)" by blast
    with False Cons.IH show ?thesis by simp
  qed
qed

lemma filter_arraySort:
  assumes "\<And>a b. P a \<Longrightarrow> P b \<Longrightarrow> cf a b \<le> 0"
  shows "filter P (arraySort cf xs) = filter P xs"
proof (induction xs)
  case Nil
  show ?case by simp
next
  case (Cons a xs)
  have "filter P (insertSorted cf a (arraySort cf xs)) =
          (if P a then a # filter P (arraySort cf xs) else filter P (arraySort cf xs))"
    by (rule filter_insertSorted) (rule assms)
  with Cons.IH show ?case by simp
qed

section \<open>The buckets of \<^verbatim>\<open>groupedByDay\<close>\<close>

lemma groupedByDay_buckets:
  assumes "\<forall>s\<in>set items. Day s \<notin> set objectPrototypeProps"
  shows "\<exists>byDay. groupedByDay lc items = Inr byDay \<and>
           distinct (map fst byDay) \<and>
           (\<forall>d b. (d, b) \<in> set byDay \<longrightarrow>
              b = arraySort (compareFn lc) (filter (\<lambda>s. Day s = d) items) \<and> b \<noteq> []) \<and>
           mset (concat (map snd byDay)) = mset items"
proof -
  from groupAll_props [OF assms, of "[]"] obtain obj where
    g: "groupAll [] items = Inr obj"
    and m: "\<forall>k. map_of obj k =
              (if k \<in> Day ` set items then Some (filter (\<lambda>s. Day s = k) items) else None)"
    and d: "distinct (map fst obj)"
    and c: "mset (concat (map snd obj)) = mset items"
    by auto
  define srt where "srt = (\<lambda>(day :: string, xs). (day, arraySort (compareFn lc) xs))"
  have r: "groupedByDay lc items = Inr (map srt obj)"
    using g by (simp add: groupedByDay_def srt_def)
  have k: "map fst (map srt obj) = map fst obj"
    by (induction obj) (auto simp: srt_def)
  have c': "mset (concat (map snd (map srt obj))) = mset (concat (map snd obj))"
    by (induction obj) (auto simp: srt_def mset_arraySort)
  have b: "b = arraySort (compareFn lc) (filter (\<lambda>s. Day s = dd) items) \<and> b \<noteq> []"
    if "(dd, b) \<in> set (map srt obj)" for dd b
  proof -
    from that obtain xs where x: "(dd, xs) \<in> set obj" and bx: "b = arraySort (compareFn lc) xs"
      by (auto simp: srt_def)
    from x d have "map_of obj dd = Some xs" by simp
    with m have i: "dd \<in> Day ` set items" and xs: "xs = filter (\<lambda>s. Day s = dd) items"
      by (auto split: if_splits)
    from i have "set xs \<noteq> {}" unfolding xs by auto
    then have "set b \<noteq> {}" unfolding bx by (simp add: set_arraySort)
    then show ?thesis using bx xs by auto
  qed
  have "distinct (map fst (map srt obj))" using d by (simp only: k)
  moreover have "mset (concat (map snd (map srt obj))) = mset items" using c by (simp only: c')
  ultimately show ?thesis using r b by blast
qed

lemma filteredSchedule_subseq: "subseq (filteredSchedule D sg sd) D"
proof -
  have "subseq (filter P (filter Q D)) D" for P Q :: "ClassSchedule \<Rightarrow> bool"
    using subseq_filter_left [of P "filter Q D"] subseq_filter_left [of Q D]
    by (rule subseq_order.trans)
  then show ?thesis
    by (simp add: filteredSchedule_def Let_def split: option.splits)
qed

lemma filteredSchedule_subset: "s \<in> set (filteredSchedule D sg sd) \<Longrightarrow> s \<in> set D"
  by (auto simp: filteredSchedule_def Let_def split: option.splits if_splits)

text \<open>No value of \<^verbatim>\<open>DayOfWeek\<close> names a property of \<^verbatim>\<open>Object.prototype\<close>.\<close>

lemma dayMap_not_inherited: "d \<in> set dayMap \<Longrightarrow> d \<notin> set objectPrototypeProps"
  by (auto simp: dayMap_def objectPrototypeProps_def)

lemma filteredSchedule_days:
  "\<forall>s\<in>set D. Day s \<notin> set objectPrototypeProps \<Longrightarrow>
   \<forall>s\<in>set (filteredSchedule D sg sd). Day s \<notin> set objectPrototypeProps"
  using filteredSchedule_subset by blast

text \<open>
  C2. Let the collation be a consistent comparator: any two strings are comparable and
  the order is transitive. Let no session of the dataset have a \<^verbatim>\<open>Day\<close> that names a
  property of \<^verbatim>\<open>Object.prototype\<close> (every value of \<^verbatim>\<open>DayOfWeek\<close> qualifies). Then for
  every selected group and day \<^verbatim>\<open>groupedByDay\<close> returns, and every bucket of the result
  is sorted non-decreasingly by the start time of \<^verbatim>\<open>Time\<close> under the collation. The
  sort is stable: for every start time \<open>t\<close>, the sessions of the bucket of day \<open>d\<close>
  that start at \<open>t\<close> are the sessions of the filtered schedule of day \<open>d\<close> that start
  at \<open>t\<close>, in that order, and the filtered schedule is a subsequence of the dataset.
\<close>

theorem groupedByDay_sorted_stable:
  assumes total: "\<forall>a b. localeCompare a b \<le> 0 \<or> localeCompare b a \<le> 0"
      and trans: "\<forall>a b c. localeCompare a b \<le> 0 \<and> localeCompare b c \<le> 0
                    \<longrightarrow> localeCompare a c \<le> 0"
      and days: "\<forall>s\<in>set D. Day s \<notin> set objectPrototypeProps"
  shows "\<exists>byDay. groupedByDay localeCompare (filteredSchedule D sg sd) = Inr byDay \<and>
           (\<forall>(d, b)\<in>set byDay.
              sorted_wrt (\<lambda>x y. localeCompare (startTime (Time x)) (startTime (Time y)) \<le> 0) b \<and>
              (\<forall>t. filter (\<lambda>s. startTime (Time s) = t) b =
                   filter (\<lambda>s. startTime (Time s) = t)
                     (filter (\<lambda>s. Day s = d) (filteredSchedule D sg sd)))) \<and>
           subseq (filteredSchedule D sg sd) D"
proof -
  let ?fs = "filteredSchedule D sg sd"
  let ?cf = "compareFn localeCompare"
  from groupedByDay_buckets [OF filteredSchedule_days [OF days, of sg sd], where lc = localeCompare]
  obtain byDay where r: "groupedByDay localeCompare ?fs = Inr byDay"
    and b: "\<forall>d b. (d, b) \<in> set byDay \<longrightarrow>
              b = arraySort ?cf (filter (\<lambda>s. Day s = d) ?fs) \<and> b \<noteq> []"
    by blast
  have cf: "?cf x y = localeCompare (startTime (Time x)) (startTime (Time y))" for x y
    by (simp add: compareFn_def)
  have t1: "?cf x y \<le> 0 \<or> ?cf y x \<le> 0" for x y
    unfolding cf using total by blast
  have t2: "?cf x y \<le> 0 \<Longrightarrow> ?cf y z \<le> 0 \<Longrightarrow> ?cf x z \<le> 0" for x y z
    unfolding cf using trans by blast
  have s: "sorted_wrt (\<lambda>x y. localeCompare (startTime (Time x)) (startTime (Time y)) \<le> 0)
             (arraySort ?cf xs)" for xs
    using sorted_arraySort [of ?cf xs, OF t1 t2] unfolding cf .
  have st: "filter (\<lambda>s. startTime (Time s) = t) (arraySort ?cf xs) =
            filter (\<lambda>s. startTime (Time s) = t) xs" for t xs
  proof (rule filter_arraySort)
    fix a b :: ClassSchedule
    assume "startTime (Time a) = t" "startTime (Time b) = t"
    then have "?cf a b = localeCompare t t" by (simp add: cf)
    with total show "?cf a b \<le> 0" by metis
  qed
  have "\<forall>(d, b)\<in>set byDay.
              sorted_wrt (\<lambda>x y. localeCompare (startTime (Time x)) (startTime (Time y)) \<le> 0) b \<and>
              (\<forall>t. filter (\<lambda>s. startTime (Time s) = t) b =
                   filter (\<lambda>s. startTime (Time s) = t) (filter (\<lambda>s. Day s = d) ?fs))"
  proof (clarify, intro conjI allI)
    fix d b t assume "(d, b) \<in> set byDay"
    with b have e: "b = arraySort ?cf (filter (\<lambda>s. Day s = d) ?fs)" by blast
    show "sorted_wrt (\<lambda>x y. localeCompare (startTime (Time x)) (startTime (Time y)) \<le> 0) b"
      unfolding e by (rule s)
    show "filter (\<lambda>s. startTime (Time s) = t) b =
            filter (\<lambda>s. startTime (Time s) = t) (filter (\<lambda>s. Day s = d) ?fs)"
      unfolding e by (rule st)
  qed
  with r filteredSchedule_subseq [of D sg sd] show ?thesis by blast
qed

text \<open>
  C9. Let no session of the dataset have a \<^verbatim>\<open>Day\<close> that names a property of
  \<^verbatim>\<open>Object.prototype\<close>. Then for every selected group and day, and every collation,
  \<^verbatim>\<open>groupedByDay\<close> returns buckets with pairwise different keys; every session of the
  bucket of day \<open>d\<close> has \<^verbatim>\<open>Day\<close> equal to \<open>d\<close>, the bucket holds exactly the
  sessions of that day of the filtered schedule, and all buckets together hold exactly
  the sessions of the filtered schedule, each as often as it occurs there.
\<close>

theorem groupedByDay_partition:
  assumes days: "\<forall>s\<in>set D. Day s \<notin> set objectPrototypeProps"
  shows "\<exists>byDay. groupedByDay localeCompare (filteredSchedule D sg sd) = Inr byDay \<and>
           distinct (map fst byDay) \<and>
           (\<forall>(d, b)\<in>set byDay.
              (\<forall>s\<in>set b. Day s = d) \<and>
              mset b = mset (filter (\<lambda>s. Day s = d) (filteredSchedule D sg sd))) \<and>
           mset (concat (map snd byDay)) = mset (filteredSchedule D sg sd)"
proof -
  let ?fs = "filteredSchedule D sg sd"
  let ?cf = "compareFn localeCompare"
  from groupedByDay_buckets [OF filteredSchedule_days [OF days, of sg sd], where lc = localeCompare]
  obtain byDay where r: "groupedByDay localeCompare ?fs = Inr byDay"
    and k: "distinct (map fst byDay)"
    and b: "\<forall>d b. (d, b) \<in> set byDay \<longrightarrow>
              b = arraySort ?cf (filter (\<lambda>s. Day s = d) ?fs) \<and> b \<noteq> []"
    and c: "mset (concat (map snd byDay)) = mset ?fs"
    by blast
  have "\<forall>(d, b)\<in>set byDay.
          (\<forall>s\<in>set b. Day s = d) \<and> mset b = mset (filter (\<lambda>s. Day s = d) ?fs)"
  proof (clarify, intro conjI ballI)
    fix d b assume "(d, b) \<in> set byDay"
    with b have e: "b = arraySort ?cf (filter (\<lambda>s. Day s = d) ?fs)" by blast
    show "mset b = mset (filter (\<lambda>s. Day s = d) ?fs)"
      unfolding e by (rule mset_arraySort)
    fix s assume "s \<in> set b"
    then show "Day s = d" unfolding e by (simp add: set_arraySort)
  qed
  with r k c show ?thesis by blast
qed

text \<open>
  C3. With \<^verbatim>\<open>selectedDay\<close> equal to \<^verbatim>\<open>ALL\<close>, the schedule view has one slot per day in
  the order SUN, MON, TUE, WED, THU, FRI, whatever buckets \<^verbatim>\<open>groupedByDay\<close> holds: the
  slot of a day is a section of that day when its bucket exists and is not empty, and
  \<^verbatim>\<open>null\<close> otherwise. No slot is a section of SAT, also when there is a bucket for SAT.
\<close>

theorem renderSchedule_ALL_order:
  "\<exists>secs. renderSchedule ''ALL'' byDay = AllDays secs \<and>
     map (map_option fst) secs =
       map (\<lambda>day. if (\<exists>cs. map_of byDay day = Some cs \<and> cs \<noteq> []) then Some day else None)
         [''SUN'', ''MON'', ''TUE'', ''WED'', ''THU'', ''FRI''] \<and>
     (\<forall>cs. Some (''SAT'', cs) \<notin> set secs)"
  by (auto simp: renderSchedule_def DAYS_def split: option.splits)

lemma codeUnitCompare_total: "codeUnitCompare a b \<le> 0 \<or> codeUnitCompare b a \<le> 0"
  by (induction a b rule: codeUnitCompare.induct) auto

lemma codeUnitCompare_trans:
  "codeUnitCompare a b \<le> 0 \<Longrightarrow> codeUnitCompare b c \<le> 0 \<Longrightarrow> codeUnitCompare a c \<le> 0"
proof (induction a arbitrary: b c)
  case Nil
  then show ?case by (cases c) simp_all
next
  case (Cons x xs)
  from Cons.prems obtain y ys where b: "b = y # ys" by (cases b) simp_all
  from Cons.prems b obtain z zs where c: "c = z # zs" by (cases c) simp_all
  from Cons.prems Cons.IH [of ys zs] show ?case
    unfolding b c by (auto split: if_splits)
qed

section \<open>The derivation on the sample data\<close>

lemmas sample_defs = sampleData_def sessMon10_def sessMon09_def sessMon10b_def sessSat_def sessTue_def

lemma sample_days: "\<forall>s\<in>set sampleData. Day s \<notin> set objectPrototypeProps"
  by (simp add: sample_defs objectPrototypeProps_def)

lemma sample_grouped:
  "groupedByDay codeUnitCompare (filteredSchedule sampleData (Some ''L4CG1'') ''ALL'') =
     Inr [(''MON'', [sessMon09, sessMon10, sessMon10b]), (''SAT'', [sessSat])]"
  by code_simp

lemma sample_render:
  "renderSchedule ''ALL'' [(''MON'', [sessMon09, sessMon10, sessMon10b]), (''SAT'', [sessSat])] =
     AllDays [None, Some (''MON'', [sessMon09, sessMon10, sessMon10b]), None, None, None, None]"
  by code_simp

text \<open>A \<^verbatim>\<open>Day\<close> that names a property of \<^verbatim>\<open>Object.prototype\<close> makes the grouping throw.\<close>

lemma sample_inherited:
  "groupedByDay codeUnitCompare [sessTue\<lparr>Day := ''constructor''\<rparr>] = Inl TypeError"
  by code_simp

theorem groupedByDay_sorted_stable_witness:
  "sorted_wrt (\<lambda>x y. codeUnitCompare (startTime (Time x)) (startTime (Time y)) \<le> 0)
     [sessMon09, sessMon10, sessMon10b] \<and>
   filter (\<lambda>s. startTime (Time s) = ''10:00'') [sessMon09, sessMon10, sessMon10b] =
     filter (\<lambda>s. startTime (Time s) = ''10:00'')
       (filter (\<lambda>s. Day s = ''MON'') (filteredSchedule sampleData (Some ''L4CG1'') ''ALL''))"
proof -
  have t: "\<forall>a b. codeUnitCompare a b \<le> 0 \<or> codeUnitCompare b a \<le> 0"
    using codeUnitCompare_total by blast
  have tr: "\<forall>a b c. codeUnitCompare a b \<le> 0 \<and> codeUnitCompare b c \<le> 0
              \<longrightarrow> codeUnitCompare a c \<le> 0"
    using codeUnitCompare_trans by blast
  from groupedByDay_sorted_stable [OF t tr sample_days, of "Some ''L4CG1''" "''ALL''"]
  obtain byDay where
    r: "groupedByDay codeUnitCompare (filteredSchedule sampleData (Some ''L4CG1'') ''ALL'') =
          Inr byDay"
    and b: "\<forall>(d, b)\<in>set byDay.
              sorted_wrt (\<lambda>x y. codeUnitCompare (startTime (Time x)) (startTime (Time y)) \<le> 0) b \<and>
              (\<forall>t. filter (\<lambda>s. startTime (Time s) = t) b =
                   filter (\<lambda>s. startTime (Time s) = t)
                     (filter (\<lambda>s. Day s = d)
                        (filteredSchedule sampleData (Some ''L4CG1'') ''ALL'')))"
    by blast
  from r sample_grouped
  have "byDay = [(''MON'', [sessMon09, sessMon10, sessMon10b]), (''SAT'', [sessSat])]" by simp
  then have "(''MON'', [sessMon09, sessMon10, sessMon10b]) \<in> set byDay" by simp
  with b show ?thesis by blast
qed

theorem groupedByDay_partition_witness:
  "mset ([sessMon09, sessMon10, sessMon10b] @ [sessSat]) =
     mset (filteredSchedule sampleData (Some ''L4CG1'') ''ALL'')"
proof -
  from groupedByDay_partition [OF sample_days, of codeUnitCompare "Some ''L4CG1''" "''ALL''"]
  obtain byDay where
    r: "groupedByDay codeUnitCompare (filteredSchedule sampleData (Some ''L4CG1'') ''ALL'') =
          Inr byDay"
    and c: "mset (concat (map snd byDay)) =
              mset (filteredSchedule sampleData (Some ''L4CG1'') ''ALL'')"
    by blast
  from r sample_grouped
  have "byDay = [(''MON'', [sessMon09, sessMon10, sessMon10b]), (''SAT'', [sessSat])]" by simp
  with c show ?thesis by simp
qed

section \<open>Persisted preferences\<close>

lemmas key_defs = GROUP_STORAGE_KEY_def THEME_STORAGE_KEY_def

lemmas store_defs = getItemAsync_def setItemAsync_def deleteItemAsync_def

text \<open>
  C4. For a valid group \<open>g\<close>, after \<^verbatim>\<open>saveGroup(g)\<close> whose write is fulfilled the
  in-memory group is \<open>g\<close> and the store holds \<open>g\<close>; a restart (a freshly mounted
  component over the same store) whose reads are fulfilled ends \<^verbatim>\<open>loadSavedData\<close> with
  \<^verbatim>\<open>selectedGroup\<close> equal to \<open>g\<close>; and \<^verbatim>\<open>loadSavedData\<close> run on the state right after
  the save keeps \<open>g\<close> whatever its reads do.
\<close>

theorem saveGroup_roundtrip:
  "g \<in> set GROUPS \<Longrightarrow>
     selectedGroup (saveGroup Fulfilled g w) = Some g \<and>
     secureStore (saveGroup Fulfilled g w) GROUP_STORAGE_KEY = Some g \<and>
     selectedGroup (loadSavedData Fulfilled Fulfilled
        (initialWorld dayIndex (secureStore (saveGroup Fulfilled g w)))) = Some g \<and>
     (\<forall>rGroup rTheme.
        selectedGroup (loadSavedData rGroup rTheme (saveGroup Fulfilled g w)) = Some g)"
  using GROUPS_nonempty [of g]
  by (auto simp: saveGroup_def loadSavedData_def initialWorld_def store_defs key_defs Let_def
           split: outcome.splits option.splits)

theorem saveGroup_roundtrip_witness:
  "''L4CG3'' \<in> set GROUPS \<and>
   selectedGroup (loadSavedData Fulfilled Fulfilled
      (initialWorld 2 (secureStore (saveGroup Fulfilled ''L4CG3'' sampleWorld)))) =
     Some ''L4CG3''"
proof -
  have h: "''L4CG3'' \<in> set GROUPS" by (simp add: GROUPS_def)
  from saveGroup_roundtrip [OF h, of sampleWorld 2] h show ?thesis by blast
qed

text \<open>
  C6. When the write of \<^verbatim>\<open>saveGroup(g)\<close> is rejected, \<^verbatim>\<open>selectedGroup\<close> keeps the value
  it had before the call and the store is as it was, and the alert
  \<^verbatim>\<open>Failed to save group selection\<close> is shown. In general \<^verbatim>\<open>selectedGroup\<close> becomes \<open>g\<close>
  exactly on the path where the write was fulfilled.
\<close>

theorem saveGroup_rejected_unchanged:
  "selectedGroup (saveGroup Rejected g w) = selectedGroup w \<and>
   secureStore (saveGroup Rejected g w) = secureStore w \<and>
   alerts (saveGroup Rejected g w) =
     alerts w @ [(''Error'', ''Failed to save group selection'')] \<and>
   selectedGroup (saveGroup r g w) =
     (case r of Fulfilled \<Rightarrow> Some g | Rejected \<Rightarrow> selectedGroup w)"
  by (simp add: saveGroup_def store_defs split: outcome.splits)

text \<open>
  C5, as the claim states it: after a confirmed group change whose deletion is rejected,
  \<^verbatim>\<open>selectedGroup\<close> is cleared. It is not: in the sample state, where the group is
  \<^verbatim>\<open>L4CG1\<close>, the group is still set after the call.
\<close>

theorem changeGroup_rejected_counterexample:
  "selectedGroup (changeGroup Yes Rejected sampleWorld) \<noteq> None"
  by (simp add: changeGroup_def sampleWorld_def store_defs)

text \<open>
  C5, amended. When the deletion of a confirmed group change is rejected,
  \<^verbatim>\<open>selectedGroup\<close> and the store are both left as they were: \<^verbatim>\<open>setSelectedGroup(null)\<close>
  follows the awaited deletion inside the \<^verbatim>\<open>try\<close> block. The group is cleared, in
  memory and in the store, when the deletion is fulfilled, and \<^verbatim>\<open>Cancel\<close> changes
  neither.
\<close>

theorem changeGroup_rejected_unchanged:
  "selectedGroup (changeGroup Yes Rejected w) = selectedGroup w \<and>
   secureStore (changeGroup Yes Rejected w) = secureStore w \<and>
   selectedGroup (changeGroup Yes Fulfilled w) = None \<and>
   secureStore (changeGroup Yes Fulfilled w) GROUP_STORAGE_KEY = None \<and>
   selectedGroup (changeGroup Cancel r w) = selectedGroup w \<and>
   secureStore (changeGroup Cancel r w) = secureStore w"
  by (simp add: changeGroup_def store_defs)

text \<open>
  C7. \<^verbatim>\<open>loadSavedData\<close> on the freshly mounted component, for every content of the
  store and both outcomes of either read: \<^verbatim>\<open>isLoading\<close> ends false; \<^verbatim>\<open>selectedGroup\<close>
  is the stored group when both reads are fulfilled and the stored value is an element
  of \<^verbatim>\<open>GROUPS\<close>, and \<^verbatim>\<open>null\<close> otherwise; \<^verbatim>\<open>isDarkMode\<close> is true exactly when both
  reads are fulfilled and the stored theme is the string \<^verbatim>\<open>dark\<close>.
\<close>

theorem loadSavedData_outcomes:
  "isLoading (loadSavedData rGroup rTheme (initialWorld dayIndex st)) = False \<and>
   selectedGroup (loadSavedData rGroup rTheme (initialWorld dayIndex st)) =
     (if rGroup = Fulfilled \<and> rTheme = Fulfilled \<and> st GROUP_STORAGE_KEY \<in> Some ` set GROUPS
      then st GROUP_STORAGE_KEY else None) \<and>
   isDarkMode (loadSavedData rGroup rTheme (initialWorld dayIndex st)) =
     (rGroup = Fulfilled \<and> rTheme = Fulfilled \<and> st THEME_STORAGE_KEY = Some ''dark'')"
  using GROUPS_nonempty
  by (cases rGroup; cases rTheme)
     (auto simp: loadSavedData_def initialWorld_def store_defs Let_def split: option.splits)

theorem loadSavedData_outcomes_witness:
  "isLoading (loadSavedData Fulfilled Fulfilled (initialWorld 6 sampleStore)) = False \<and>
   selectedGroup (loadSavedData Fulfilled Fulfilled (initialWorld 6 sampleStore)) =
     Some ''L4CG2'' \<and>
   isDarkMode (loadSavedData Fulfilled Fulfilled (initialWorld 6 sampleStore)) = True \<and>
   selectedGroup (loadSavedData Fulfilled Rejected (initialWorld 6 sampleStore)) = None \<and>
   isDarkMode (loadSavedData Rejected Fulfilled (initialWorld 6 sampleStore)) = False"
  using loadSavedData_outcomes [of Fulfilled Fulfilled 6 sampleStore]
        loadSavedData_outcomes [of Fulfilled Rejected 6 sampleStore]
        loadSavedData_outcomes [of Rejected Fulfilled 6 sampleStore]
  by (simp add: sampleStore_def key_defs GROUPS_def)

text \<open>
  C8. From any theme, two calls of \<^verbatim>\<open>toggleTheme\<close> whose writes are both fulfilled
  bring \<^verbatim>\<open>isDarkMode\<close> back to its value, and the store then holds \<^verbatim>\<open>dark\<close> when
  \<^verbatim>\<open>isDarkMode\<close> is true and \<^verbatim>\<open>light\<close> when it is false.
\<close>

theorem toggleTheme_twice:
  "isDarkMode (toggleTheme Fulfilled (toggleTheme Fulfilled w)) = isDarkMode w \<and>
   secureStore (toggleTheme Fulfilled (toggleTheme Fulfilled w)) THEME_STORAGE_KEY =
     Some (if isDarkMode (toggleTheme Fulfilled (toggleTheme Fulfilled w))
           then ''dark'' else ''light'')"
  by (simp add: toggleTheme_def store_defs Let_def)

section \<open>The selected day\<close>

lemma initialSelectedDay_in: "initialSelectedDay i \<in> set (''ALL'' # DAYS)"
  by (simp add: initialSelectedDay_def Let_def)

lemma initialSelectedDay_eq: "initialSelectedDay i = (if i < 6 then dayMap ! i else ''ALL'')"
proof -
  have "i < 6 \<Longrightarrow> i \<in> {0, 1, 2, 3, 4, 5}" by auto
  moreover have "i < 7 \<Longrightarrow> \<not> i < 6 \<Longrightarrow> i = 6" by simp
  ultimately show ?thesis
    by (cases "i < 7") (auto simp: initialSelectedDay_def dayMap_def DAYS_def Let_def)
qed

lemma selectedDay_step:
  "selectedDay (loadSavedData a b w) = selectedDay w"
  "selectedDay (saveGroup r g w) = selectedDay w"
  "selectedDay (toggleTheme r w) = selectedDay w"
  "selectedDay (changeGroup bt r w) = selectedDay w"
  "selectedDay (setSelectedDay d w) = d"
  by (auto simp: loadSavedData_def saveGroup_def toggleTheme_def changeGroup_def
        setSelectedDay_def Let_def
        split: sum.splits option.splits alert_button.splits prod.splits)

text \<open>
  C10. In every state of a run \<^verbatim>\<open>selectedDay\<close> is \<^verbatim>\<open>ALL\<close> or an element of \<^verbatim>\<open>DAYS\<close>,
  hence never \<^verbatim>\<open>SAT\<close>. The component mounts with the weekday of index \<open>i\<close> selected
  when \<open>i\<close> is below 6 (Sunday to Friday) and with \<^verbatim>\<open>ALL\<close> otherwise; the day buttons
  set \<^verbatim>\<open>ALL\<close> or an element of \<^verbatim>\<open>DAYS\<close>; no other handler writes \<^verbatim>\<open>selectedDay\<close>.
\<close>

theorem selectedDay_never_SAT:
  "reachable w \<Longrightarrow>
     selectedDay w \<in> set (''ALL'' # DAYS) \<and> selectedDay w \<noteq> ''SAT'' \<and>
     (\<forall>i st. selectedDay (initialWorld i st) = (if i < 6 then dayMap ! i else ''ALL''))"
proof -
  assume r: "reachable w"
  have "selectedDay w \<in> set (''ALL'' # DAYS)" using r
  proof (induction rule: reachable.induct)
    case (mount dayIndex st)
    show ?case using initialSelectedDay_in [of dayIndex] by (simp add: initialWorld_def)
  qed (simp_all add: selectedDay_step)
  moreover have "''SAT'' \<notin> set (''ALL'' # DAYS)" by (simp add: DAYS_def)
  moreover have "\<forall>i st. selectedDay (initialWorld i st) = (if i < 6 then dayMap ! i else ''ALL'')"
    by (simp add: initialWorld_def initialSelectedDay_eq)
  ultimately show ?thesis by metis
qed

theorem selectedDay_never_SAT_witness:
  "reachable (setSelectedDay ''FRI'' (loadSavedData Fulfilled Fulfilled (initialWorld 6 sampleStore))) \<and>
   selectedDay (setSelectedDay ''FRI'' (loadSavedData Fulfilled Fulfilled (initialWorld 6 sampleStore)))
     \<noteq> ''SAT'' \<and>
   selectedDay (initialWorld 6 sampleStore) = ''ALL''"
proof -
  have "''FRI'' \<in> set DAYS" by (simp add: DAYS_def)
  then have h: "reachable (setSelectedDay ''FRI''
                  (loadSavedData Fulfilled Fulfilled (initialWorld 6 sampleStore)))"
    by (intro reachable.pressDay reachable.load reachable.mount)
  from selectedDay_never_SAT [OF h] h show ?thesis by simp
qed

end
